theory Spec2Isabelle
  imports Main "HOL-Library.Sublist" "HOL-Library.Multiset"
begin

section \<open>Python strings\<close>

text \<open>
  A Python \<^verbatim>\<open>str\<close> is modelled as a \<^typ>\<open>string\<close>: the list of the bytes of its UTF-8
  encoding. \<^verbatim>\<open>str.lower()\<close> is modelled on the ASCII letters, \<open>A\<close>..\<open>Z\<close> (codes 65..90)
  going to \<open>a\<close>..\<open>z\<close>; every other byte is kept. The bytes of a code point outside ASCII
  are all above 127, and Python's lowering of such a code point yields no ASCII letter
  other than \<open>k\<close> (from the Kelvin sign) and \<open>i\<close> (from the dotted capital I), neither of
  which occurs in the tokens searched for below, so the search for those tokens has the
  same answer on the model as on the Python string.
\<close>

definition lower_char :: "char \<Rightarrow> char" where
  "lower_char c =
     (let n = (of_char c :: nat)
      in if 65 \<le> n \<and> n \<le> 90 then char_of (n + 32) else c)"

definition lower :: "string \<Rightarrow> string" where
  "lower s = map lower_char s"

text \<open>
  Python's \<^verbatim>\<open>needle in hay\<close> on strings: \<open>needle\<close> starts at some position of \<open>hay\<close>.
\<close>

fun contains :: "string \<Rightarrow> string \<Rightarrow> bool" where
  "contains needle [] = (needle = [])"
| "contains needle (c # cs) = (prefix needle (c # cs) \<or> contains needle cs)"

section \<open>advisors.py\<close>

text \<open>\<^verbatim>\<open>class Advisor(BaseModel)\<close>: a name and a strategy, both strings.\<close>

record Advisor =
  name :: string
  strategy :: string

text \<open>
  \<^verbatim>\<open>class Output(BaseModel)\<close> (declared in monopoly.py): the structured response of the
  decision collaborator, and the argument of \<^verbatim>\<open>parse_advisor_response\<close>.
\<close>

record Output =
  reasoning :: string
  decision :: string

text \<open>
  \<^verbatim>\<open>
  def parse_advisor_response(response):
      decision = response.decision.lower()
      if "approve" in decision or "accept" in decision or "yes" in decision:
          return True
      else:
          return False
  \<close>
\<close>

definition parse_advisor_response :: "Output \<Rightarrow> bool" where
  "parse_advisor_response response =
     (let decision = lower (decision response)
      in if contains ''approve'' decision \<or> contains ''accept'' decision
            \<or> contains ''yes'' decision
         then True
         else False)"

section \<open>monopoly.py: the vote aggregation\<close>

text \<open>
  \<^verbatim>\<open>
  if votes.count(True) > votes.count(False):
      print("Proposal accepted by advisors.")
  else:
      print("Proposal rejected by advisors.")
  \<close>
  \<^verbatim>\<open>list.count\<close> is \<^const>\<open>count_list\<close>. \<open>proposal_accepted\<close> is the test of the
  \<^verbatim>\<open>if\<close>, \<open>verdict_line\<close> the line the statement prints.
\<close>

definition proposal_accepted :: "bool list \<Rightarrow> bool" where
  "proposal_accepted votes = (count_list votes True > count_list votes False)"

definition verdict_line :: "bool list \<Rightarrow> string" where
  "verdict_line votes =
     (if proposal_accepted votes then ''Proposal accepted by advisors.''
      else ''Proposal rejected by advisors.'')"

section \<open>monopoly.py: the collaborators and the effects of the script\<close>

text \<open>
  The game engine (the \<^verbatim>\<open>monosim\<close> package) is not part of the repository. Its state,
  shared by the players, the bank and the board, is a value of type \<open>'g\<close> (the state of
  the dice included); a player is a handle of type \<open>'p\<close>. \<^verbatim>\<open>player.play()\<close> changes the
  state, \<^verbatim>\<open>player.has_lost()\<close> reads it. Both are parameters of the model.
\<close>

record ('g, 'p) engine =
  play :: "'p \<Rightarrow> 'g \<Rightarrow> 'g"
  has_lost :: "'p \<Rightarrow> 'g \<Rightarrow> bool"

text \<open>
  The exceptions a call of the decision collaborator can raise. The script defines no
  exception class and has no \<^verbatim>\<open>try\<close>: whatever \<^verbatim>\<open>structured_llm.invoke\<close> raises leaves
  the script uncaught. The first two constructors name the failures of a call that the
  specification speaks of (a response that fails schema validation, a timeout), the
  third any other exception by the name of its class.
\<close>

datatype error = MalformedDecisionError | TimeoutError | OtherError string

text \<open>
  A prompt is kept as the values its text is rendered from, not as the text. The
  proposal prompt is rendered from the game state (and the constant role
  \<^verbatim>\<open>"Player 1"\<close>); an advisor's prompt from the advisor's name and strategy, the game
  state and the proposed action.
\<close>

datatype 'g prompt =
    Proposal_prompt 'g
  | Advisor_prompt string string 'g string

text \<open>
  The decision collaborator (\<^verbatim>\<open>structured_llm\<close>) is not deterministic: its answer to
  the \<open>n\<close>-th call of a run (counted from 0) with prompt \<open>p\<close> is \<open>llm n p\<close>:
  \<open>Some (Inr r)\<close> when the call returns the response \<open>r\<close>, \<open>Some (Inl e)\<close> when it raises
  the exception \<open>e\<close>, and \<open>None\<close> when it never returns. The script passes no timeout to
  the call and sets none around it, so whether a call returns is the collaborator's
  matter alone.
\<close>

type_synonym 'g llm = "nat \<Rightarrow> 'g prompt \<Rightarrow> (error + Output) option"

text \<open>
  What the script does to the outside, in order: a call of \<^verbatim>\<open>player.play()\<close>, a call
  of \<^verbatim>\<open>structured_llm.invoke\<close>, a printed line; \<open>Print_usage\<close> stands for the two last
  lines, which print the token count and the cost read from the OpenAI callback.
\<close>

datatype ('g, 'p) event =
    Play 'p
  | Invoke "'g prompt"
  | Print string
  | Print_usage

text \<open>
  The state the script runs in: the game, the number of calls of the collaborator made
  so far, and the events so far.
\<close>

record ('g, 'p) world =
  game :: 'g
  calls :: nat
  trace :: "('g, 'p) event list"

definition emit :: "('g, 'p) event \<Rightarrow> ('g, 'p) world \<Rightarrow> ('g, 'p) world" where
  "emit e s = s\<lparr>trace := trace s @ [e]\<rparr>"

fun print_lines :: "string list \<Rightarrow> ('g, 'p) world \<Rightarrow> ('g, 'p) world" where
  "print_lines [] s = s"
| "print_lines (l # ls) s = print_lines ls (emit (Print l) s)"

text \<open>
  \<^verbatim>\<open>structured_llm.invoke(prompt)\<close>: one call of the collaborator. The call is counted
  and recorded when it is made, whatever comes of it.
\<close>

definition invoke ::
  "'g llm \<Rightarrow> 'g prompt \<Rightarrow> ('g, 'p) world
     \<Rightarrow> (error + Output) option \<times> ('g, 'p) world" where
  "invoke llm p s = (llm (calls s) p, emit (Invoke p) (s\<lparr>calls := Suc (calls s)\<rparr>))"

section \<open>monopoly.py: the turns played before the decision\<close>

text \<open>
  \<^verbatim>\<open>
  for player in list_players:
      player.play()
  \<close>
\<close>

fun play_all :: "('g, 'p) engine \<Rightarrow> 'p list \<Rightarrow> ('g, 'p) world \<Rightarrow> ('g, 'p) world" where
  "play_all eng [] s = s"
| "play_all eng (player # players) s =
     play_all eng players (emit (Play player) (s\<lparr>game := play eng player (game s)\<rparr>))"

text \<open>
  \<^verbatim>\<open>
  idx_count = 0
  while not player1.has_lost() and not player2.has_lost() and idx_count < stop_at_round:
      for player in list_players:
          player.play()
      idx_count += 1
  \<close>
  The loop returns the final \<^verbatim>\<open>idx_count\<close> with the state.
\<close>

function pre_decision_loop ::
  "('g, 'p) engine \<Rightarrow> 'p \<Rightarrow> 'p \<Rightarrow> 'p list \<Rightarrow> int \<Rightarrow> int \<Rightarrow> ('g, 'p) world
     \<Rightarrow> int \<times> ('g, 'p) world" where
  "pre_decision_loop eng player1 player2 list_players stop idx_count s =
     (if \<not> has_lost eng player1 (game s) \<and> \<not> has_lost eng player2 (game s)
         \<and> idx_count < stop
      then pre_decision_loop eng player1 player2 list_players stop (idx_count + 1)
             (play_all eng list_players s)
      else (idx_count, s))"
  by pat_completeness auto
termination
  by (relation "measure (\<lambda>(eng, player1, player2, list_players, stop, idx_count, s).
        nat (stop - idx_count))") auto

text \<open>The equation of the loop is unfolded by hand, one turn of the loop at a time.\<close>

declare pre_decision_loop.simps [simp del]

text \<open>
  The game after one pass of the \<^verbatim>\<open>for\<close> loop over \<^verbatim>\<open>[player1, player2]\<close>: one round.
\<close>

definition round_game :: "('g, 'p) engine \<Rightarrow> 'p \<Rightarrow> 'p \<Rightarrow> 'g \<Rightarrow> 'g" where
  "round_game eng player1 player2 g = play eng player2 (play eng player1 g)"

text \<open>
  A small engine for closed instances: the game is the number of turns played so far,
  and a player has lost once that number has reached the player's limit.
\<close>

definition counting_engine :: "(nat \<Rightarrow> nat) \<Rightarrow> (nat, nat) engine" where
  "counting_engine limit =
     \<lparr>play = (\<lambda>player g. Suc g), has_lost = (\<lambda>player g. limit player \<le> g)\<rparr>"

definition stop_at_round :: int where
  "stop_at_round = 5"

section \<open>monopoly.py: the proposal and the advisors' vote\<close>

definition advisors :: "Advisor list" where
  "advisors =
     [\<lparr>name = ''Advisor A'', strategy = ''Aggressive''\<rparr>,
      \<lparr>name = ''Advisor B'', strategy = ''Conservative''\<rparr>,
      \<lparr>name = ''Advisor C'', strategy = ''Opportunistic''\<rparr>]"

text \<open>
  \<^verbatim>\<open>
  print(f"{advisor.name} ({advisor.strategy}) votes to
          {'approve' if vote else 'reject'} the proposal.")
  \<close>
\<close>

definition vote_line :: "Advisor \<Rightarrow> bool \<Rightarrow> string" where
  "vote_line advisor vote =
     name advisor @ '' ('' @ strategy advisor @ '') votes to ''
       @ (if vote then ''approve'' else ''reject'') @ '' the proposal.''"

text \<open>
  \<^verbatim>\<open>
  for advisor in advisors:
      advisor_context = advisor_prompt.format(advisor_name=advisor.name, ...,
                                              proposed_action=proposal_decision)
      advisor_response = structured_llm.invoke(advisor_context)
      vote = parse_advisor_response(advisor_response)
      votes.append(vote)
      print(...)
  \<close>
  The loop over the advisors left to ask, with the votes so far. An exception of
  \<^verbatim>\<open>invoke\<close> is not caught: it ends the loop (and the script) there. A call that
  never returns leaves the loop waiting in it: the result is \<open>None\<close>, with the state
  and the events up to that call.
\<close>

fun advisor_votes ::
  "'g llm \<Rightarrow> string \<Rightarrow> Advisor list \<Rightarrow> bool list \<Rightarrow> ('g, 'p) world
     \<Rightarrow> (error + bool list) option \<times> ('g, 'p) world" where
  "advisor_votes llm proposal_decision [] votes s = (Some (Inr votes), s)"
| "advisor_votes llm proposal_decision (advisor # rest) votes s =
     (case invoke llm
             (Advisor_prompt (name advisor) (strategy advisor) (game s) proposal_decision) s of
        (None, s') \<Rightarrow> (None, s')
      | (Some (Inl e), s') \<Rightarrow> (Some (Inl e), s')
      | (Some (Inr advisor_response), s') \<Rightarrow>
          (let vote = parse_advisor_response advisor_response
           in advisor_votes llm proposal_decision rest (votes @ [vote])
                (emit (Print (vote_line advisor vote)) s')))"

text \<open>
  The script from the game loop on, started on the initial game \<open>g0\<close> of
  \<^verbatim>\<open>initialize_game()\<close> with its two players. The result is \<open>Some (Inl e)\<close> when the
  exception \<open>e\<close> ended the script, \<open>Some (Inr votes)\<close> with the final value of
  \<^verbatim>\<open>votes\<close> when the script ran to its end, and \<open>None\<close> when the script never ends,
  waiting in a call of the collaborator; with it, the state and the events of the run.
\<close>

definition run ::
  "('g, 'p) engine \<Rightarrow> 'g llm \<Rightarrow> 'p \<Rightarrow> 'p \<Rightarrow> 'g
     \<Rightarrow> (error + bool list) option \<times> ('g, 'p) world" where
  "run eng llm player1 player2 g0 =
     (let list_players = [player1, player2];
          (idx_count, s1) =
             pre_decision_loop eng player1 player2 list_players stop_at_round 0
               \<lparr>game = g0, calls = 0, trace = []\<rparr>
      in case invoke llm (Proposal_prompt (game s1)) s1 of
           (None, s2) \<Rightarrow> (None, s2)
         | (Some (Inl e), s2) \<Rightarrow> (Some (Inl e), s2)
         | (Some (Inr proposal), s2) \<Rightarrow>
             (let s3 = print_lines
                         [''Player proposal:'', decision proposal,
                          ''Player reasoning:'', reasoning proposal,
                          ''Turning to advisors for a vote...''] s2
              in case advisor_votes llm (decision proposal) advisors [] s3 of
                   (None, s4) \<Rightarrow> (None, s4)
                 | (Some (Inl e), s4) \<Rightarrow> (Some (Inl e), s4)
                 | (Some (Inr votes), s4) \<Rightarrow>
                     (Some (Inr votes),
                      emit Print_usage (emit (Print (verdict_line votes)) s4))))"

section \<open>Collaborators for closed instances\<close>

text \<open>
  An engine on which nobody loses within the rounds played: the limit of both players
  is 100 turns.
\<close>

definition long_game :: "(nat, nat) engine" where
  "long_game = counting_engine (\<lambda>player. 100)"

definition buy_proposal :: Output where
  "buy_proposal = \<lparr>reasoning = ''cash is high'', decision = ''buy the property''\<rparr>"

definition approval :: Output where
  "approval = \<lparr>reasoning = ''fits my strategy'', decision = ''I approve''\<rparr>"

text \<open>A collaborator that answers the proposal request and fails on every advisor's prompt.\<close>

definition llm_advisors_time_out :: "nat llm" where
  "llm_advisors_time_out n p =
     (case p of Proposal_prompt g \<Rightarrow> Some (Inr buy_proposal)
      | Advisor_prompt advisor_name advisor_strategy g action \<Rightarrow> Some (Inl TimeoutError))"


text \<open>
  A collaborator whose first answer (call number 0) fails validation and whose every
  later answer is valid: a second try of the proposal request would succeed.
\<close>

definition llm_first_answer_malformed :: "nat llm" where
  "llm_first_answer_malformed n p =
     (if n = 0 then Some (Inl MalformedDecisionError)
      else case p of Proposal_prompt g \<Rightarrow> Some (Inr buy_proposal)
           | Advisor_prompt advisor_name advisor_strategy g action \<Rightarrow> Some (Inr approval))"





section \<open>The vote classifier\<close>

lemma contains_iff: "contains needle hay = (\<exists>ps ss. hay = ps @ needle @ ss)"
proof (induction hay)
  case Nil
  show ?case by auto
next
  case (Cons c cs)
  have "contains needle (c # cs) = (prefix needle (c # cs) \<or> sublist needle cs)"
    using Cons.IH by (simp add: sublist_def)
  also have "\<dots> = sublist needle (c # cs)"
    by (simp add: sublist_Cons_right)
  finally show ?case by (simp add: sublist_def)
qed

lemma lower_append: "lower (xs @ ys) = lower xs @ lower ys"
  by (simp add: lower_def)

text \<open>
  C1. An advisor's response is an approving vote exactly when its lowercased decision
  text has \<open>approve\<close>, \<open>accept\<close> or \<open>yes\<close> as a substring, and a rejecting vote otherwise;
  \<open>Yes, I approve this trade\<close> is an approval, \<open>No, this is too risky\<close> and
  \<open>Not sure, maybe\<close> are rejections.
\<close>

theorem parse_advisor_response_classification:
  "parse_advisor_response response =
     ((\<exists>ps ss. lower (decision response) = ps @ ''approve'' @ ss)
      \<or> (\<exists>ps ss. lower (decision response) = ps @ ''accept'' @ ss)
      \<or> (\<exists>ps ss. lower (decision response) = ps @ ''yes'' @ ss))
   \<and> parse_advisor_response \<lparr>reasoning = why, decision = ''Yes, I approve this trade''\<rparr>
   \<and> \<not> parse_advisor_response \<lparr>reasoning = why, decision = ''No, this is too risky''\<rparr>
   \<and> \<not> parse_advisor_response \<lparr>reasoning = why, decision = ''Not sure, maybe''\<rparr>"
proof -
  have general: "parse_advisor_response response =
     ((\<exists>ps ss. lower (decision response) = ps @ ''approve'' @ ss)
      \<or> (\<exists>ps ss. lower (decision response) = ps @ ''accept'' @ ss)
      \<or> (\<exists>ps ss. lower (decision response) = ps @ ''yes'' @ ss))"
    unfolding parse_advisor_response_def Let_def contains_iff by simp
  have yes: "parse_advisor_response \<lparr>reasoning = why, decision = ''Yes, I approve this trade''\<rparr>"
    by code_simp
  have no: "\<not> parse_advisor_response \<lparr>reasoning = why, decision = ''No, this is too risky''\<rparr>"
    by code_simp
  have unsure: "\<not> parse_advisor_response \<lparr>reasoning = why, decision = ''Not sure, maybe''\<rparr>"
    by code_simp
  from general yes no unsure show ?thesis by blast
qed

text \<open>
  C8. The classifier is a pure substring test: a decision text that holds, in any
  letter case, one of the tokens \<open>approve\<close>, \<open>accept\<close>, \<open>yes\<close> is an approval whatever
  stands before and after the token; so are \<open>No, I do not approve\<close> (the token inside a
  negation) and \<open>eyes\<close> (the token inside another word).
\<close>

theorem affirmative_token_wins:
  "(lower token = ''approve'' \<or> lower token = ''accept'' \<or> lower token = ''yes''
      \<longrightarrow> parse_advisor_response \<lparr>reasoning = why, decision = before @ token @ after\<rparr>)
   \<and> parse_advisor_response \<lparr>reasoning = why, decision = ''No, I do not approve''\<rparr>
   \<and> parse_advisor_response \<lparr>reasoning = why, decision = ''eyes''\<rparr>"
proof -
  have tok: "contains (lower token) (lower (before @ token @ after))"
    unfolding contains_iff lower_append by blast
  have general: "lower token = ''approve'' \<or> lower token = ''accept'' \<or> lower token = ''yes''
      \<longrightarrow> parse_advisor_response \<lparr>reasoning = why, decision = before @ token @ after\<rparr>"
    using tok by (auto simp: parse_advisor_response_def)
  have negated: "parse_advisor_response \<lparr>reasoning = why, decision = ''No, I do not approve''\<rparr>"
    by code_simp
  have inside: "parse_advisor_response \<lparr>reasoning = why, decision = ''eyes''\<rparr>"
    by code_simp
  from general negated inside show ?thesis by blast
qed

theorem affirmative_token_wins_witness:
  "lower ''ACCEPT'' = ''accept''
   \<and> parse_advisor_response
       \<lparr>reasoning = ''too risky'', decision = ''I can NOT '' @ ''ACCEPT'' @ '' this.''\<rparr>"
proof -
  have h: "lower ''ACCEPT'' = ''accept''" by code_simp
  from affirmative_token_wins [of "''ACCEPT''" "''too risky''" "''I can NOT ''" "'' this.''"] h
  show ?thesis by blast
qed

section \<open>The vote aggregation\<close>

lemma count_list_True: "count_list votes True = length (filter (\<lambda>v. v) votes)"
  by (induction votes) auto

lemma count_list_False: "count_list votes False = length (filter (\<lambda>v. \<not> v) votes)"
  by (induction votes) auto

text \<open>
  C2. For a list of votes with \<open>a\<close> approvals and \<open>r\<close> rejections, the proposal is
  accepted exactly when \<open>a > r\<close>: the accepting line is printed then, and the rejecting
  line whenever \<open>a \<le> r\<close>, a tie included.
\<close>

theorem majority_law:
  "length (filter (\<lambda>v. v) votes) = a \<Longrightarrow> length (filter (\<lambda>v. \<not> v) votes) = r \<Longrightarrow>
     (proposal_accepted votes \<longleftrightarrow> r < a)
     \<and> (r < a \<longrightarrow> verdict_line votes = ''Proposal accepted by advisors.'')
     \<and> (a \<le> r \<longrightarrow> verdict_line votes = ''Proposal rejected by advisors.'')"
  by (auto simp: proposal_accepted_def verdict_line_def count_list_True count_list_False)

theorem majority_law_witness:
  "length (filter (\<lambda>v. v) [True, False, False, True]) = 2
   \<and> length (filter (\<lambda>v. \<not> v) [True, False, False, True]) = 2
   \<and> \<not> proposal_accepted [True, False, False, True]
   \<and> verdict_line [True, False, False, True] = ''Proposal rejected by advisors.''"
proof -
  have a: "length (filter (\<lambda>v. v) [True, False, False, True]) = 2" by simp
  have r: "length (filter (\<lambda>v. \<not> v) [True, False, False, True]) = 2" by simp
  from majority_law [OF a r] a r show ?thesis by simp
qed

text \<open>
  C7. The aggregation does not depend on the order of the votes: on a permutation of
  a vote list (a list with the same multiset of votes) it gives the same verdict.
\<close>

theorem aggregation_order_independent:
  "mset votes' = mset votes \<Longrightarrow>
     proposal_accepted votes' = proposal_accepted votes
     \<and> verdict_line votes' = verdict_line votes"
proof -
  assume "mset votes' = mset votes"
  then have "count_list votes' v = count_list votes v" for v
    by (metis count_mset)
  then show ?thesis
    by (simp add: proposal_accepted_def verdict_line_def)
qed

theorem aggregation_order_independent_witness:
  "mset [False, True, True] = mset [True, False, True]
   \<and> proposal_accepted [False, True, True] = proposal_accepted [True, False, True]
   \<and> verdict_line [False, True, True] = verdict_line [True, False, True]"
proof -
  have p: "mset [False, True, True] = mset [True, False, True]" by simp
  from aggregation_order_independent [OF p] p show ?thesis by blast
qed

text \<open>
  C10. On the empty vote list the verdict is a rejection, 0 approvals being not more
  than 0 rejections; the advisor loop over no advisor ends normally with no vote: no
  error is raised and no quorum is asked for.
\<close>

theorem empty_votes_rejected:
  "\<not> proposal_accepted []
   \<and> verdict_line [] = ''Proposal rejected by advisors.''
   \<and> advisor_votes llm proposal_decision [] [] s = (Some (Inr []), s)"
  by (simp add: proposal_accepted_def verdict_line_def)

section \<open>The turns played before the decision\<close>

lemma play_all_pair:
  "play_all eng [p1, p2] s =
     s\<lparr>game := round_game eng p1 p2 (game s), trace := trace s @ [Play p1, Play p2]\<rparr>"
  by (simp add: emit_def round_game_def)

lemma pre_decision_loop_rounds:
  "(\<And>k. k < n \<Longrightarrow> \<not> has_lost eng p1 ((round_game eng p1 p2 ^^ k) (game s))
              \<and> \<not> has_lost eng p2 ((round_game eng p1 p2 ^^ k) (game s))
              \<and> idx + int k < stop) \<Longrightarrow>
   pre_decision_loop eng p1 p2 [p1, p2] stop idx s =
     pre_decision_loop eng p1 p2 [p1, p2] stop (idx + int n)
       (s\<lparr>game := (round_game eng p1 p2 ^^ n) (game s),
          trace := trace s @ concat (replicate n [Play p1, Play p2])\<rparr>)"
proof (induction n arbitrary: idx s)
  case 0
  show ?case by simp
next
  case (Suc n)
  let ?R = "round_game eng p1 p2"
  let ?s1 = "play_all eng [p1, p2] s"
  from Suc.prems [of 0]
  have now: "\<not> has_lost eng p1 (game s)" "\<not> has_lost eng p2 (game s)" "idx < stop"
    by simp_all
  have later: "\<not> has_lost eng p1 ((?R ^^ k) (game ?s1))
      \<and> \<not> has_lost eng p2 ((?R ^^ k) (game ?s1)) \<and> (idx + 1) + int k < stop"
    if "k < n" for k
    using Suc.prems [of "Suc k"] that
    by (simp add: play_all_pair funpow_swap1 del: play_all.simps)
  have "pre_decision_loop eng p1 p2 [p1, p2] stop idx s =
        pre_decision_loop eng p1 p2 [p1, p2] stop (idx + 1) ?s1"
    using now by (subst pre_decision_loop.simps) simp
  also have "\<dots> = pre_decision_loop eng p1 p2 [p1, p2] stop ((idx + 1) + int n)
       (?s1\<lparr>game := (?R ^^ n) (game ?s1),
          trace := trace ?s1 @ concat (replicate n [Play p1, Play p2])\<rparr>)"
    using later by (rule Suc.IH)
  also have "\<dots> = pre_decision_loop eng p1 p2 [p1, p2] stop (idx + int (Suc n))
       (s\<lparr>game := (?R ^^ Suc n) (game s),
          trace := trace s @ concat (replicate (Suc n) [Play p1, Play p2])\<rparr>)"
    by (simp add: play_all_pair funpow_swap1 add.commute add.left_commute del: play_all.simps)
  finally show ?case .
qed

lemma pre_decision_loop_stops:
  "has_lost eng p1 (game s) \<or> has_lost eng p2 (game s) \<or> stop \<le> idx \<Longrightarrow>
   pre_decision_loop eng p1 p2 ps stop idx s = (idx, s)"
  by (subst pre_decision_loop.simps) auto


lemma pre_decision_loop_whole_rounds:
  "\<exists>n. pre_decision_loop eng p1 p2 [p1, p2] stop idx s =
         (idx + int n,
          s\<lparr>game := (round_game eng p1 p2 ^^ n) (game s),
            trace := trace s @ concat (replicate n [Play p1, Play p2])\<rparr>)
       \<and> (\<forall>k<n. \<not> has_lost eng p1 ((round_game eng p1 p2 ^^ k) (game s))
                \<and> \<not> has_lost eng p2 ((round_game eng p1 p2 ^^ k) (game s))
                \<and> idx + int k < stop)
       \<and> (has_lost eng p1 ((round_game eng p1 p2 ^^ n) (game s))
          \<or> has_lost eng p2 ((round_game eng p1 p2 ^^ n) (game s))
          \<or> stop \<le> idx + int n)"
proof -
  let ?R = "round_game eng p1 p2"
  let ?P = "\<lambda>n. has_lost eng p1 ((?R ^^ n) (game s)) \<or> has_lost eng p2 ((?R ^^ n) (game s))
                \<or> stop \<le> idx + int n"
  let ?at = "\<lambda>n. s\<lparr>game := (?R ^^ n) (game s),
                     trace := trace s @ concat (replicate n [Play p1, Play p2])\<rparr>"
  define n where "n = (LEAST n. ?P n)"
  have "?P (nat (stop - idx))" by simp
  then have stop_here: "?P n" unfolding n_def by (rule LeastI)
  have before: "\<not> ?P k" if "k < n" for k
    using that unfolding n_def by (rule not_less_Least)
  have "pre_decision_loop eng p1 p2 [p1, p2] stop idx s =
        pre_decision_loop eng p1 p2 [p1, p2] stop (idx + int n) (?at n)"
    by (rule pre_decision_loop_rounds) (use before in force)
  also have "\<dots> = (idx + int n, ?at n)"
    by (rule pre_decision_loop_stops) (use stop_here in simp)
  finally have "pre_decision_loop eng p1 p2 [p1, p2] stop idx s = (idx + int n, ?at n)" .
  moreover have "\<forall>k<n. \<not> has_lost eng p1 ((?R ^^ k) (game s))
      \<and> \<not> has_lost eng p2 ((?R ^^ k) (game s)) \<and> idx + int k < stop"
    using before by force
  ultimately show ?thesis using stop_here by blast
qed

text \<open>
  C9. The loop looks at the players' loss conditions at round boundaries only. It plays
  \<open>n\<close> whole rounds, each a turn of \<open>player1\<close> then a turn of \<open>player2\<close>, where \<open>n\<close> is the
  first round boundary at which a player has lost or the bound is reached: the states in
  the middle of a round are never tested. In particular, when \<open>player1\<close> loses during
  its own turn, \<open>player2\<close> still plays its turn of that round, and the loop exits before
  the next round.
\<close>

theorem loss_checked_at_round_boundaries:
  "(\<exists>n. pre_decision_loop eng player1 player2 [player1, player2] stop idx s =
         (idx + int n,
          s\<lparr>game := (round_game eng player1 player2 ^^ n) (game s),
            trace := trace s @ concat (replicate n [Play player1, Play player2])\<rparr>)
       \<and> (\<forall>k<n. \<not> has_lost eng player1 ((round_game eng player1 player2 ^^ k) (game s))
                \<and> \<not> has_lost eng player2 ((round_game eng player1 player2 ^^ k) (game s))
                \<and> idx + int k < stop)
       \<and> (has_lost eng player1 ((round_game eng player1 player2 ^^ n) (game s))
          \<or> has_lost eng player2 ((round_game eng player1 player2 ^^ n) (game s))
          \<or> stop \<le> idx + int n))
   \<and> (\<not> has_lost eng player1 (game s) \<and> \<not> has_lost eng player2 (game s) \<and> idx < stop
       \<and> has_lost eng player1 (play eng player1 (game s))
       \<and> has_lost eng player1 (round_game eng player1 player2 (game s))
      \<longrightarrow> pre_decision_loop eng player1 player2 [player1, player2] stop idx s =
            (idx + 1,
             s\<lparr>game := round_game eng player1 player2 (game s),
               trace := trace s @ [Play player1, Play player2]\<rparr>))"
proof (rule conjI)
  show "\<exists>n. pre_decision_loop eng player1 player2 [player1, player2] stop idx s =
         (idx + int n,
          s\<lparr>game := (round_game eng player1 player2 ^^ n) (game s),
            trace := trace s @ concat (replicate n [Play player1, Play player2])\<rparr>)
       \<and> (\<forall>k<n. \<not> has_lost eng player1 ((round_game eng player1 player2 ^^ k) (game s))
                \<and> \<not> has_lost eng player2 ((round_game eng player1 player2 ^^ k) (game s))
                \<and> idx + int k < stop)
       \<and> (has_lost eng player1 ((round_game eng player1 player2 ^^ n) (game s))
          \<or> has_lost eng player2 ((round_game eng player1 player2 ^^ n) (game s))
          \<or> stop \<le> idx + int n)"
    by (rule pre_decision_loop_whole_rounds)
next
  show "\<not> has_lost eng player1 (game s) \<and> \<not> has_lost eng player2 (game s) \<and> idx < stop
       \<and> has_lost eng player1 (play eng player1 (game s))
       \<and> has_lost eng player1 (round_game eng player1 player2 (game s))
      \<longrightarrow> pre_decision_loop eng player1 player2 [player1, player2] stop idx s =
            (idx + 1,
             s\<lparr>game := round_game eng player1 player2 (game s),
               trace := trace s @ [Play player1, Play player2]\<rparr>)"
  proof
    assume a: "\<not> has_lost eng player1 (game s) \<and> \<not> has_lost eng player2 (game s) \<and> idx < stop
       \<and> has_lost eng player1 (play eng player1 (game s))
       \<and> has_lost eng player1 (round_game eng player1 player2 (game s))"
    let ?s1 = "play_all eng [player1, player2] s"
    have "pre_decision_loop eng player1 player2 [player1, player2] stop idx s =
          pre_decision_loop eng player1 player2 [player1, player2] stop (idx + 1) ?s1"
      using a by (subst pre_decision_loop.simps) simp
    also have "\<dots> = (idx + 1, ?s1)"
      by (rule pre_decision_loop_stops) (use a in \<open>simp add: play_all_pair del: play_all.simps\<close>)
    finally show "pre_decision_loop eng player1 player2 [player1, player2] stop idx s =
            (idx + 1,
             s\<lparr>game := round_game eng player1 player2 (game s),
               trace := trace s @ [Play player1, Play player2]\<rparr>)"
      by (simp add: play_all_pair del: play_all.simps)
  qed
qed

theorem loss_checked_at_round_boundaries_witness:
  "pre_decision_loop (counting_engine (\<lambda>player. if player = 1 then 1 else 100)) 1 2 [1, 2] 5 0
     \<lparr>game = 0, calls = 0, trace = []\<rparr>
   = (1, \<lparr>game = 2, calls = 0, trace = [Play 1, Play 2]\<rparr>)"
  using loss_checked_at_round_boundaries
    [of "counting_engine (\<lambda>player. if player = 1 then 1 else 100)" 1 2 5 0
        "\<lparr>game = 0, calls = 0, trace = []\<rparr>"]
  by (simp add: counting_engine_def round_game_def)

lemma pre_decision_loop_five_rounds:
  assumes "\<forall>k<5. \<not> has_lost eng p1 ((round_game eng p1 p2 ^^ k) g0)
                 \<and> \<not> has_lost eng p2 ((round_game eng p1 p2 ^^ k) g0)"
  shows "pre_decision_loop eng p1 p2 [p1, p2] stop_at_round 0 \<lparr>game = g0, calls = 0, trace = []\<rparr>
         = (5, \<lparr>game = (round_game eng p1 p2 ^^ 5) g0, calls = 0,
                trace = [Play p1, Play p2, Play p1, Play p2, Play p1, Play p2,
                         Play p1, Play p2, Play p1, Play p2]\<rparr>)"
proof -
  let ?s = "\<lparr>game = g0, calls = 0, trace = []\<rparr> :: ('a, 'b) world"
  let ?s5 = "?s\<lparr>game := (round_game eng p1 p2 ^^ 5) (game ?s),
                trace := trace ?s @ concat (replicate 5 [Play p1, Play p2])\<rparr>"
  have "pre_decision_loop eng p1 p2 [p1, p2] stop_at_round 0 ?s =
        pre_decision_loop eng p1 p2 [p1, p2] stop_at_round (0 + int 5) ?s5"
    by (rule pre_decision_loop_rounds) (use assms in \<open>simp add: stop_at_round_def\<close>)
  also have "\<dots> = (0 + int 5, ?s5)"
    by (rule pre_decision_loop_stops) (simp add: stop_at_round_def)
  finally show ?thesis
    by (simp add: numeral_eq_Suc)
qed

lemma long_game_rounds: "(round_game long_game 1 2 ^^ k) g = g + 2 * k"
  by (induction k) (simp_all add: round_game_def long_game_def counting_engine_def)

lemma long_game_loop:
  "pre_decision_loop long_game 1 2 [1, 2] stop_at_round 0 \<lparr>game = 0, calls = 0, trace = []\<rparr>
   = (5, \<lparr>game = 10, calls = 0,
          trace = [Play 1, Play 2, Play 1, Play 2, Play 1, Play 2,
                   Play 1, Play 2, Play 1, Play 2]\<rparr>)"
proof -
  have "\<forall>k<5. \<not> has_lost long_game 1 ((round_game long_game 1 2 ^^ k) 0)
              \<and> \<not> has_lost long_game 2 ((round_game long_game 1 2 ^^ k) 0)"
    unfolding long_game_rounds by (simp add: long_game_def counting_engine_def)
  from pre_decision_loop_five_rounds [OF this, unfolded long_game_rounds] show ?thesis
    by simp
qed

lemma trace_print_lines: "trace (print_lines ls s) = trace s @ map Print ls"
  by (induction ls arbitrary: s) (simp_all add: emit_def)

lemma advisor_votes_extends:
  "\<exists>more. trace (snd (advisor_votes llm pd as votes s)) = trace s @ more"
proof (induction as arbitrary: votes s)
  case Nil
  show ?case by simp
next
  case (Cons a as)
  show ?case
  proof (cases "llm (calls s) (Advisor_prompt (name a) (strategy a) (game s) pd)")
    case None
    then show ?thesis by (simp add: invoke_def emit_def)
  next
    case (Some answer)
    show ?thesis
    proof (cases answer)
      case (Inl e)
      with Some show ?thesis by (simp add: invoke_def emit_def)
    next
      case (Inr r)
      let ?s' = "emit (Print (vote_line a (parse_advisor_response r)))
                  (emit (Invoke (Advisor_prompt (name a) (strategy a) (game s) pd))
                     (s\<lparr>calls := Suc (calls s)\<rparr>))"
      from Cons.IH [of "votes @ [parse_advisor_response r]" ?s']
      obtain more where
        "trace (snd (advisor_votes llm pd as (votes @ [parse_advisor_response r]) ?s'))
         = trace ?s' @ more" by blast
      with Some Inr show ?thesis by (simp add: invoke_def emit_def Let_def)
    qed
  qed
qed

lemma run_starts_with_loop_then_proposal:
  assumes "pre_decision_loop eng p1 p2 [p1, p2] stop_at_round 0 \<lparr>game = g0, calls = 0, trace = []\<rparr>
           = (idx_count, s1)"
  shows "\<exists>rest. trace (snd (run eng llm p1 p2 g0))
           = trace s1 @ Invoke (Proposal_prompt (game s1)) # rest"
proof (cases "llm (calls s1) (Proposal_prompt (game s1))")
  case None
  with assms show ?thesis by (simp add: run_def invoke_def emit_def)
next
  case (Some answer)
  show ?thesis
  proof (cases answer)
    case (Inl e)
    with assms Some show ?thesis by (simp add: run_def invoke_def emit_def)
  next
    case (Inr proposal)
    let ?s2 = "emit (Invoke (Proposal_prompt (game s1))) (s1\<lparr>calls := Suc (calls s1)\<rparr>)"
    let ?s3 = "print_lines [''Player proposal:'', decision proposal, ''Player reasoning:'',
                  reasoning proposal, ''Turning to advisors for a vote...''] ?s2"
    obtain more where more:
      "trace (snd (advisor_votes llm (decision proposal) advisors [] ?s3)) = trace ?s3 @ more"
      using advisor_votes_extends by blast
    obtain res s4 where r: "advisor_votes llm (decision proposal) advisors [] ?s3 = (res, s4)"
      by (cases "advisor_votes llm (decision proposal) advisors [] ?s3")
    from more r have t4: "trace s4 = trace ?s3 @ more" by simp
    have t3: "trace ?s3 = trace s1 @ Invoke (Proposal_prompt (game s1)) #
        map Print [''Player proposal:'', decision proposal, ''Player reasoning:'',
                  reasoning proposal, ''Turning to advisors for a vote...'']"
      unfolding trace_print_lines by (simp add: emit_def)
    have answered: "llm (calls s1) (Proposal_prompt (game s1)) = Some (Inr proposal)"
      using Some Inr by simp
    show ?thesis
    proof (cases res)
      case None
      with assms answered r t4 t3 show ?thesis
        by (simp add: run_def invoke_def del: print_lines.simps)
    next
      case (Some outcome)
      show ?thesis
      proof (cases outcome)
        case (Inl e)
        with assms answered Some r t4 t3 show ?thesis
          by (simp add: run_def invoke_def del: print_lines.simps)
      next
        case (Inr votes)
        with assms answered Some r t4 t3 show ?thesis
          by (simp add: run_def invoke_def emit_def del: print_lines.simps)
      qed
    qed
  qed
qed

text \<open>
  C5. With the bound of 5 rounds and the two players, when no player has lost at a
  round boundary before the fifth round is over, the loop ends after exactly 5 rounds,
  that is 10 calls of \<open>play\<close>, alternating between the players; the next thing the
  script does is to request the proposal, on the game as it is after those rounds.
\<close>

theorem five_rounds_then_proposal:
  assumes "\<forall>k<5. \<not> has_lost eng player1 ((round_game eng player1 player2 ^^ k) g0)
                 \<and> \<not> has_lost eng player2 ((round_game eng player1 player2 ^^ k) g0)"
  shows "pre_decision_loop eng player1 player2 [player1, player2] stop_at_round 0
           \<lparr>game = g0, calls = 0, trace = []\<rparr>
         = (5, \<lparr>game = (round_game eng player1 player2 ^^ 5) g0, calls = 0,
                trace = [Play player1, Play player2, Play player1, Play player2,
                         Play player1, Play player2, Play player1, Play player2,
                         Play player1, Play player2]\<rparr>)
       \<and> (\<exists>rest. trace (snd (run eng llm player1 player2 g0))
             = [Play player1, Play player2, Play player1, Play player2,
                Play player1, Play player2, Play player1, Play player2,
                Play player1, Play player2]
               @ Invoke (Proposal_prompt ((round_game eng player1 player2 ^^ 5) g0)) # rest)"
proof -
  note loop = pre_decision_loop_five_rounds [OF assms]
  from run_starts_with_loop_then_proposal [OF loop, of llm] loop
  show ?thesis by simp
qed

theorem five_rounds_then_proposal_witness:
  "pre_decision_loop long_game 1 2 [1, 2] stop_at_round 0 \<lparr>game = 0, calls = 0, trace = []\<rparr>
     = (5, \<lparr>game = 10, calls = 0,
            trace = [Play 1, Play 2, Play 1, Play 2, Play 1, Play 2,
                     Play 1, Play 2, Play 1, Play 2]\<rparr>)
   \<and> (\<exists>rest. trace (snd (run long_game llm_first_answer_malformed 1 2 0))
         = [Play 1, Play 2, Play 1, Play 2, Play 1, Play 2, Play 1, Play 2, Play 1, Play 2]
           @ Invoke (Proposal_prompt 10) # rest)"
proof -
  have nobody_lost: "\<forall>k<5. \<not> has_lost long_game 1 ((round_game long_game 1 2 ^^ k) 0)
              \<and> \<not> has_lost long_game 2 ((round_game long_game 1 2 ^^ k) 0)"
    unfolding long_game_rounds by (simp add: long_game_def counting_engine_def)
  from five_rounds_then_proposal
         [OF nobody_lost, of llm_first_answer_malformed, unfolded long_game_rounds]
  show ?thesis by simp
qed

section \<open>The proposal and the advisors' vote\<close>

lemma pre_decision_loop_calls:
  assumes "pre_decision_loop eng p1 p2 [p1, p2] stop idx s = (idx', s')"
  shows "calls s' = calls s"
proof -
  from pre_decision_loop_whole_rounds [of eng p1 p2 stop idx s] assms
  obtain n where "s' = s\<lparr>game := (round_game eng p1 p2 ^^ n) (game s),
            trace := trace s @ concat (replicate n [Play p1, Play p2])\<rparr>"
    by auto
  then show ?thesis by simp
qed




text \<open>
  C3, as the code has it. When the proposal request is answered and every advisor's
  evaluation would fail, the cycle gives no verdict: the first advisor's failure leaves
  the script uncaught, so the cycle ends with that advisor's own error, after two calls
  of the collaborator; the other advisors are not asked, nothing is printed after the
  call, and no error of another kind is reported in its place.
\<close>

theorem failing_advisors_end_the_cycle:
  assumes loop: "pre_decision_loop eng player1 player2 [player1, player2] stop_at_round 0
                   \<lparr>game = g0, calls = 0, trace = []\<rparr> = (idx_count, s1)"
    and proposal: "llm 0 (Proposal_prompt (game s1)) = Some (Inr proposal)"
    and all_fail: "\<forall>n. \<forall>advisor \<in> set advisors.
                     \<exists>e. llm n (Advisor_prompt (name advisor) (strategy advisor) (game s1)
                                  (decision proposal)) = Some (Inl e)"
  shows "\<exists>e. llm 1 (Advisor_prompt ''Advisor A'' ''Aggressive'' (game s1) (decision proposal))
               = Some (Inl e)
           \<and> run eng llm player1 player2 g0 =
               (Some (Inl e),
                s1\<lparr>calls := 2,
                   trace := trace s1 @
                     [Invoke (Proposal_prompt (game s1)),
                      Print ''Player proposal:'', Print (decision proposal),
                      Print ''Player reasoning:'', Print (reasoning proposal),
                      Print ''Turning to advisors for a vote...'',
                      Invoke (Advisor_prompt ''Advisor A'' ''Aggressive'' (game s1)
                                (decision proposal))]\<rparr>)"
proof -
  have no_call_yet: "calls s1 = 0"
    using pre_decision_loop_calls [OF loop] by simp
  have "\<lparr>name = ''Advisor A'', strategy = ''Aggressive''\<rparr> \<in> set advisors"
    by (simp add: advisors_def)
  with all_fail obtain e where
    e: "llm 1 (Advisor_prompt ''Advisor A'' ''Aggressive'' (game s1) (decision proposal)) = Some (Inl e)"
    by force
  have "run eng llm player1 player2 g0 =
               (Some (Inl e),
                s1\<lparr>calls := 2,
                   trace := trace s1 @
                     [Invoke (Proposal_prompt (game s1)),
                      Print ''Player proposal:'', Print (decision proposal),
                      Print ''Player reasoning:'', Print (reasoning proposal),
                      Print ''Turning to advisors for a vote...'',
                      Invoke (Advisor_prompt ''Advisor A'' ''Aggressive'' (game s1)
                                (decision proposal))]\<rparr>)"
    using loop proposal e no_call_yet
    by (simp add: run_def invoke_def emit_def advisors_def)
  with e show ?thesis by blast
qed

theorem failing_advisors_end_the_cycle_witness:
  "\<exists>e. llm_advisors_time_out 1 (Advisor_prompt ''Advisor A'' ''Aggressive'' 10 ''buy the property'')
          = Some (Inl e)
     \<and> run long_game llm_advisors_time_out 1 2 0 =
         (Some (Inl e),
          \<lparr>game = 10, calls = 2,
           trace = [Play 1, Play 2, Play 1, Play 2, Play 1, Play 2, Play 1, Play 2,
                    Play 1, Play 2,
                    Invoke (Proposal_prompt 10),
                    Print ''Player proposal:'', Print ''buy the property'',
                    Print ''Player reasoning:'', Print ''cash is high'',
                    Print ''Turning to advisors for a vote...'',
                    Invoke (Advisor_prompt ''Advisor A'' ''Aggressive'' 10
                              ''buy the property'')]\<rparr>)"
proof -
  have proposal: "llm_advisors_time_out 0
      (Proposal_prompt (game \<lparr>game = 10, calls = 0,
          trace = [Play 1, Play 2, Play 1, Play 2, Play 1, Play 2,
                   Play 1, Play 2, Play 1, Play (2::nat)]\<rparr>)) = Some (Inr buy_proposal)"
    by (simp add: llm_advisors_time_out_def)
  have all_fail: "\<forall>n. \<forall>advisor \<in> set advisors.
      \<exists>e. llm_advisors_time_out n
            (Advisor_prompt (name advisor) (strategy advisor)
               (game \<lparr>game = 10, calls = 0,
                  trace = [Play 1, Play 2, Play 1, Play 2, Play 1, Play 2,
                           Play 1, Play 2, Play 1, Play (2::nat)]\<rparr>)
               (decision buy_proposal)) = Some (Inl e)"
    by (simp add: llm_advisors_time_out_def)
  from failing_advisors_end_the_cycle [OF long_game_loop proposal all_fail]
  show ?thesis by (simp add: buy_proposal_def)
qed

text \<open>
  The claim C3 as stated fails: with every advisor timing out, the run ends with the
  \<open>TimeoutError\<close> of the first advisor's call, and no rejection is printed.
\<close>

theorem all_advisors_abstain_counterexample:
  "run long_game llm_advisors_time_out 1 2 0 =
     (Some (Inl TimeoutError),
      \<lparr>game = 10, calls = 2,
       trace = [Play 1, Play 2, Play 1, Play 2, Play 1, Play 2, Play 1, Play 2,
                Play 1, Play 2,
                Invoke (Proposal_prompt 10),
                Print ''Player proposal:'', Print ''buy the property'',
                Print ''Player reasoning:'', Print ''cash is high'',
                Print ''Turning to advisors for a vote...'',
                Invoke (Advisor_prompt ''Advisor A'' ''Aggressive'' 10
                          ''buy the property'')]\<rparr>)
   \<and> Print ''Proposal rejected by advisors.''
       \<notin> set (trace (snd (run long_game llm_advisors_time_out 1 2 0)))"
proof -
  have "run long_game llm_advisors_time_out 1 2 0 =
     (Some (Inl TimeoutError),
      \<lparr>game = 10, calls = 2,
       trace = [Play 1, Play 2, Play 1, Play 2, Play 1, Play 2, Play 1, Play 2,
                Play 1, Play 2,
                Invoke (Proposal_prompt 10),
                Print ''Player proposal:'', Print ''buy the property'',
                Print ''Player reasoning:'', Print ''cash is high'',
                Print ''Turning to advisors for a vote...'',
                Invoke (Advisor_prompt ''Advisor A'' ''Aggressive'' 10
                          ''buy the property'')]\<rparr>)"
    using long_game_loop
    by (simp add: run_def invoke_def emit_def advisors_def
          llm_advisors_time_out_def buy_proposal_def)
  then show ?thesis by simp
qed










end
